theory Spec2Isabelle
  imports Main "HOL-Library.Char_ord" "HOL-Library.Sublist"
begin

section \<open>Value model and failures\<close>

text \<open>
  Modelled from the spec: the value model (\<^verbatim>\<open>templet::types::Data\<close>, \<^verbatim>\<open>DataPtr\<close>,
  \<^verbatim>\<open>DataVector\<close>, \<^verbatim>\<open>DataMap\<close>) is declared in a header that is not part of
  \<^verbatim>\<open>nodes.cpp\<close>. The spec gives it as a closed variant over a string scalar, an ordered
  list of values and a mapping from names to values with unique names; \<^verbatim>\<open>type()\<close> is the
  constructor, \<^verbatim>\<open>getValue\<close>, \<^verbatim>\<open>getList\<close> and \<^verbatim>\<open>getMap\<close> are its arguments. A
  \<^verbatim>\<open>DataMap\<close> (\<^verbatim>\<open>std::map\<close> from names to values) is a partial function:
  \<^verbatim>\<open>kv.count(n)\<close> is \<open>kv n \<noteq> None\<close> and \<^verbatim>\<open>kv.at(n)\<close> is the value stored.
\<close>

datatype data =
    DString string
  | DList "data list"
  | DMapper "string \<Rightarrow> data option"

type_synonym DataMap = "string \<Rightarrow> data option"

text \<open>
  The exceptions thrown in \<^verbatim>\<open>nodes.cpp\<close>. \<open>StdOutOfRange\<close> is the
  \<^verbatim>\<open>std::out_of_range\<close> of \<^verbatim>\<open>std::string::erase\<close> at a position beyond the end.
\<close>

datatype error =
    InvalidTagError
  | MissingTagError
  | ExpressionSyntaxError
  | StdOutOfRange

section \<open>String helpers\<close>

text \<open>\<^verbatim>\<open>std::string::find(char)\<close>: the first position of the character, \<open>None\<close> for npos.\<close>

fun find_char :: "char \<Rightarrow> string \<Rightarrow> nat option" where
  "find_char c [] = None"
| "find_char c (x # xs) = (if x = c then Some 0 else map_option Suc (find_char c xs))"

text \<open>\<^verbatim>\<open>std::string::find(const char*)\<close>: the first position where the pattern starts.\<close>

fun find_str :: "string \<Rightarrow> string \<Rightarrow> nat option" where
  "find_str pat [] = (if pat = [] then Some 0 else None)"
| "find_str pat (x # xs) =
     (if prefix pat (x # xs) then Some 0 else map_option Suc (find_str pat xs))"

text \<open>
  \<^verbatim>\<open>s.erase(pos)\<close> for a position found by \<^verbatim>\<open>find\<close>: the text before the position is
  kept; at npos (beyond the end) the call throws \<^verbatim>\<open>std::out_of_range\<close>.
\<close>

definition erase_from :: "string \<Rightarrow> nat option \<Rightarrow> error + string" where
  "erase_from s pos = (case pos of None \<Rightarrow> Inl StdOutOfRange | Some p \<Rightarrow> Inr (take p s))"

text \<open>The white space of the C locale (\<^verbatim>\<open>std::isspace\<close>): space and the codes 9 to 13.\<close>

definition isspace :: "char \<Rightarrow> bool" where
  "isspace c = (c = CHR '' '' \<or> c = CHR 0x09 \<or> c = CHR 0x0A \<or> c = CHR 0x0B
                \<or> c = CHR 0x0C \<or> c = CHR 0x0D)"

definition isdigit :: "char \<Rightarrow> bool" where
  "isdigit c = (CHR ''0'' \<le> c \<and> c \<le> CHR ''9'')"

text \<open>
  Modelled from the spec: \<^verbatim>\<open>mylib::starts_with\<close>, \<^verbatim>\<open>mylib::ends_with\<close>,
  \<^verbatim>\<open>mylib::trim\<close>, \<^verbatim>\<open>mylib::ltrim\<close> and \<^verbatim>\<open>mylib::split\<close> come from the headers
  \<^verbatim>\<open>strutils.hpp\<close>, \<^verbatim>\<open>trim.hpp\<close> and \<^verbatim>\<open>split.hpp\<close>, which are not part of
  \<^verbatim>\<open>nodes.cpp\<close>. The spec names them as prefix and suffix checks, removal of
  surrounding white space, and splitting on single occurrences of a delimiter.
\<close>

definition starts_with :: "string \<Rightarrow> string \<Rightarrow> bool" where
  "starts_with s p = prefix p s"

definition ends_with :: "string \<Rightarrow> string \<Rightarrow> bool" where
  "ends_with s p = suffix p s"

definition ltrim :: "string \<Rightarrow> string" where
  "ltrim s = dropWhile isspace s"

definition rtrim :: "string \<Rightarrow> string" where
  "rtrim s = rev (dropWhile isspace (rev s))"

definition trim :: "string \<Rightarrow> string" where
  "trim s = ltrim (rtrim s)"

fun split :: "string \<Rightarrow> char \<Rightarrow> string list" where
  "split [] d = [[]]"
| "split (c # cs) d =
     (if c = d then [] # split cs d
      else (case split cs d of t # ts \<Rightarrow> (c # t) # ts | [] \<Rightarrow> [[c]]))"

section \<open>Name validation\<close>

definition genericNameValidator :: "char \<Rightarrow> bool" where
  "genericNameValidator c =
     ((CHR ''a'' \<le> c \<and> c \<le> CHR ''z'') \<or> (CHR ''A'' \<le> c \<and> c \<le> CHR ''Z'') \<or>
      (CHR ''0'' \<le> c \<and> c \<le> CHR ''9'') \<or> (c = CHR ''_'' \<or> c = CHR ''-''))"

definition isValidName :: "string \<Rightarrow> bool" where
  "isValidName name = list_all genericNameValidator name"

definition specialNameValidator :: "char \<Rightarrow> bool" where
  "specialNameValidator c =
     ((CHR ''a'' \<le> c \<and> c \<le> CHR ''z'') \<or> (CHR ''A'' \<le> c \<and> c \<le> CHR ''Z'') \<or>
      (CHR ''0'' \<le> c \<and> c \<le> CHR ''9'') \<or> (c = CHR ''_'' \<or> c = CHR ''-'') \<or>
      (c = CHR ''['' \<or> c = CHR '']'' \<or> c = CHR ''.''))"

definition isValidNameExpression :: "string \<Rightarrow> bool" where
  "isValidNameExpression name =
     (let hasMultiDot = (find_str ''..'' name \<noteq> None);
          isValidSpecial = list_all specialNameValidator name
      in isValidSpecial \<and> \<not> hasMultiDot)"

section \<open>Path resolution\<close>

text \<open>
  \<^verbatim>\<open>parse_number\<close> is \<^verbatim>\<open>parser >> result >> std::ws && parser.peek() == EOF\<close> on a
  string stream. The extraction (\<open>read_int\<close>) skips leading white space, takes an
  optional sign and a non-empty run of decimal digits, and fails when the value is not an
  \<^verbatim>\<open>int\<close> of 32 bits; it leaves the unread rest. When the digits end the text, the
  extraction has read up to the end and set \<^verbatim>\<open>eofbit\<close>; \<^verbatim>\<open>std::ws\<close> then finds a stream
  that is not good and sets \<^verbatim>\<open>failbit\<close>, so the number is rejected. When a character
  follows the digits, \<^verbatim>\<open>std::ws\<close> skips white space and the number is accepted if
  nothing else follows. So \<^verbatim>\<open>5\<close> followed by a space is a number and \<^verbatim>\<open>5\<close> alone is
  not, where the doc comment of \<^verbatim>\<open>parse_array_index\<close> promises that \<^verbatim>\<open>[5]\<close> gives 5.
\<close>

definition digits_value :: "string \<Rightarrow> nat" where
  "digits_value ds = foldl (\<lambda>acc c. 10 * acc + (of_char c - of_char CHR ''0'')) 0 ds"

definition int_fits :: "int \<Rightarrow> bool" where
  "int_fits v = (- (2 ^ 31) \<le> v \<and> v \<le> 2 ^ 31 - 1)"

definition read_int :: "string \<Rightarrow> (int \<times> string) option" where
  "read_int text =
     (let s = dropWhile isspace text;
          neg = (s \<noteq> [] \<and> hd s = CHR ''-'');
          s1 = (if s \<noteq> [] \<and> (hd s = CHR ''-'' \<or> hd s = CHR ''+'') then tl s else s);
          ds = takeWhile isdigit s1;
          v = (if neg then - int (digits_value ds) else int (digits_value ds))
      in if ds = [] then None
         else if \<not> int_fits v then None
         else Some (v, dropWhile isdigit s1))"

definition parse_number :: "string \<Rightarrow> int option" where
  "parse_number text =
     (case read_int text of
        None \<Rightarrow> None
      | Some (result, rest) \<Rightarrow>
          if rest = [] then None
          else if dropWhile isspace rest = [] then Some result
          else None)"

definition parse_array_index :: "string \<Rightarrow> error + int" where
  "parse_array_index s =
     (if \<not> starts_with s ''['' \<or> \<not> ends_with s '']'' then Inl InvalidTagError
      else (case parse_number (take (length s - 2) (drop 1 s)) of
              None \<Rightarrow> Inl InvalidTagError
            | Some idx \<Rightarrow> Inr idx))"

definition parse_tag_name :: "string \<Rightarrow> error + (string \<times> int)" where
  "parse_tag_name s =
     (case find_char CHR ''['' s of
        None \<Rightarrow> Inr (s, - 1)
      | Some arr_pos \<Rightarrow>
          (case parse_array_index (drop arr_pos s) of
             Inl e \<Rightarrow> Inl e
           | Inr idx \<Rightarrow>
               if idx < 0 then Inl InvalidTagError else Inr (take arr_pos s, idx)))"

text \<open>
  \<^verbatim>\<open>idx >= data.size()\<close> compares an \<^verbatim>\<open>int\<close> with a \<^verbatim>\<open>size_t\<close>: the index is
  converted to the unsigned type of 64 bits, so that \<open>- 1\<close> (no index given) becomes
  \<open>2 ^ 64 - 1\<close>.
\<close>

definition size_t_of_int :: "int \<Rightarrow> nat" where
  "size_t_of_int i = nat (i mod 2 ^ 64)"

definition idx_ge_size :: "int \<Rightarrow> 'a list \<Rightarrow> bool" where
  "idx_ge_size idx xs = (length xs \<le> size_t_of_int idx)"

text \<open>
  One turn of the loop of \<^verbatim>\<open>parse_tag\<close> cuts the name at its first dot:
  \<^verbatim>\<open>name.substr(0, pos)\<close> is the segment and \<^verbatim>\<open>name.erase(0, pos + 1)\<close> (or
  \<^verbatim>\<open>name.clear()\<close> when there is no dot) leaves the rest.
\<close>

definition cut_segment :: "string \<Rightarrow> string \<times> string" where
  "cut_segment name =
     (case find_char CHR ''.'' name of
        None \<Rightarrow> (name, [])
      | Some pos \<Rightarrow> (take pos name, drop (pos + 1) name))"

text \<open>The last segment: the value of the name, or the element of its list at the index.\<close>

definition last_tag :: "data \<Rightarrow> int \<Rightarrow> error + data" where
  "last_tag dataValue idx =
     (if idx < 0 then Inr dataValue
      else (case dataValue of
              DList xs \<Rightarrow>
                if idx_ge_size idx xs then Inl InvalidTagError
                else Inr (xs ! size_t_of_int idx)
            | _ \<Rightarrow> Inl InvalidTagError))"

text \<open>A segment before the last: the mapping the loop continues in.\<close>

definition next_map :: "data \<Rightarrow> int \<Rightarrow> error + DataMap" where
  "next_map found idx =
     (case found of
        DMapper m \<Rightarrow> Inr m
      | DList xs \<Rightarrow>
          if idx_ge_size idx xs then Inl InvalidTagError
          else (case xs ! size_t_of_int idx of
                  DMapper m \<Rightarrow> Inr m
                | _ \<Rightarrow> Inl InvalidTagError)
      | DString _ \<Rightarrow> Inl InvalidTagError)"

function parse_tag :: "string \<Rightarrow> DataMap \<Rightarrow> error + data" where
  "parse_tag name kv =
     (case cut_segment name of
        (seg, rest) \<Rightarrow>
          (case parse_tag_name seg of
             Inl e \<Rightarrow> Inl e
           | Inr (mapName, idx) \<Rightarrow>
               (case kv mapName of
                  None \<Rightarrow> Inl MissingTagError
                | Some found \<Rightarrow>
                    if rest = [] then last_tag found idx
                    else (case next_map found idx of
                            Inl e \<Rightarrow> Inl e
                          | Inr m \<Rightarrow> parse_tag rest m))))"
  by pat_completeness auto
termination
  by (relation "measure (\<lambda>(name, kv). length name)")
     (auto simp: cut_segment_def split: option.splits)

declare parse_tag.simps [simp del]

definition parse_tag_string :: "string \<Rightarrow> DataMap \<Rightarrow> error + string" where
  "parse_tag_string name kv =
     (case parse_tag name kv of
        Inl e \<Rightarrow> Inl e
      | Inr (DString s) \<Rightarrow> Inr s
      | Inr _ \<Rightarrow> Inl InvalidTagError)"

definition parse_tag_list :: "string \<Rightarrow> DataMap \<Rightarrow> error + data list" where
  "parse_tag_list name kv =
     (case parse_tag name kv of
        Inl e \<Rightarrow> Inl e
      | Inr (DList xs) \<Rightarrow> Inr xs
      | Inr _ \<Rightarrow> Inl InvalidTagError)"

section \<open>Nodes\<close>

text \<open>
  The classes derived from \<^verbatim>\<open>Node\<close>, each with its fields. \<^verbatim>\<open>ElifValue\<close> derives from
  \<^verbatim>\<open>IfValue\<close> and inherits its \<^verbatim>\<open>evaluate\<close>; only \<^verbatim>\<open>type()\<close> differs.
\<close>

datatype node =
    Text string
  | Value string
  | IfValue string "node list"
  | ElifValue string "node list"
  | ElseValue "node list"
  | ForValue string string "node list"

datatype NodeType =
    NodeType_Invalid
  | NodeType_Text
  | NodeType_Value
  | NodeType_IfValue
  | NodeType_ElifValue
  | NodeType_ElseValue
  | NodeType_ForValue

fun node_type :: "node \<Rightarrow> NodeType" where
  "node_type (Text _) = NodeType_Text"
| "node_type (Value _) = NodeType_Value"
| "node_type (IfValue _ _) = NodeType_IfValue"
| "node_type (ElifValue _ _) = NodeType_ElifValue"
| "node_type (ElseValue _) = NodeType_ElseValue"
| "node_type (ForValue _ _ _) = NodeType_ForValue"

text \<open>The constructors validate their names and throw before a node exists.\<close>

definition new_Value :: "string \<Rightarrow> error + node" where
  "new_Value name =
     (if \<not> isValidNameExpression name then Inl InvalidTagError else Inr (Value name))"

definition new_IfValue :: "string \<Rightarrow> error + node" where
  "new_IfValue name =
     (if \<not> isValidNameExpression name then Inl InvalidTagError else Inr (IfValue name []))"

definition new_ElifValue :: "string \<Rightarrow> error + node" where
  "new_ElifValue name =
     (if \<not> isValidNameExpression name then Inl InvalidTagError else Inr (ElifValue name []))"

definition new_ForValue :: "string \<Rightarrow> string \<Rightarrow> error + node" where
  "new_ForValue name alias =
     (if \<not> isValidNameExpression name then Inl InvalidTagError
      else if \<not> isValidName alias then Inl InvalidTagError
      else Inr (ForValue name alias []))"

text \<open>
  Evaluation writes to an output stream and may throw. The result is the text of the
  stream after the call (what was written before a throw stays written) and the
  exception, if one was thrown.
\<close>

type_synonym outcome = "string \<times> error option"

definition is_elif_or_else :: "node \<Rightarrow> bool" where
  "is_elif_or_else n =
     (node_type n = NodeType_ElifValue \<or> node_type n = NodeType_ElseValue)"

text \<open>
  \<open>evaluate_all\<close> is the loop \<^verbatim>\<open>for(auto& node : _nodes) node->evaluate(os, kv)\<close> of
  \<^verbatim>\<open>ElseValue\<close> and of the body of \<^verbatim>\<open>ForValue\<close>; \<open>if_true_loop\<close> and
  \<open>if_false_loop\<close> are the two loops of \<^verbatim>\<open>IfValue::evaluate\<close>; \<open>for_loop\<close> is the
  loop over the items of \<^verbatim>\<open>ForValue::evaluate\<close>, which assigns each item to the alias
  in the one copy \<^verbatim>\<open>newValues\<close> of the context.
\<close>

function evaluate :: "node \<Rightarrow> DataMap \<Rightarrow> string \<Rightarrow> outcome"
  and evaluate_all :: "node list \<Rightarrow> DataMap \<Rightarrow> string \<Rightarrow> outcome"
  and if_true_loop :: "node list \<Rightarrow> DataMap \<Rightarrow> string \<Rightarrow> outcome"
  and if_false_loop :: "node list \<Rightarrow> DataMap \<Rightarrow> string \<Rightarrow> outcome"
  and for_loop :: "data list \<Rightarrow> string \<Rightarrow> node list \<Rightarrow> DataMap \<Rightarrow> string \<Rightarrow> outcome"
where
  "evaluate (Text t) kv os = (os @ t, None)"
| "evaluate (Value name) kv os =
     (case parse_tag_string name kv of
        Inr s \<Rightarrow> (os @ s, None)
      | Inl MissingTagError \<Rightarrow> (os, None)
      | Inl e \<Rightarrow> (os, Some e))"
| "evaluate (IfValue name nodes) kv os =
     (if kv name \<noteq> None then if_true_loop nodes kv os else if_false_loop nodes kv os)"
| "evaluate (ElifValue name nodes) kv os =
     (if kv name \<noteq> None then if_true_loop nodes kv os else if_false_loop nodes kv os)"
| "evaluate (ElseValue nodes) kv os = evaluate_all nodes kv os"
| "evaluate (ForValue name alias nodes) kv os =
     (case parse_tag_list name kv of
        Inl e \<Rightarrow> (os, Some e)
      | Inr evaluatedList \<Rightarrow>
          if kv alias \<noteq> None then (os, Some InvalidTagError)
          else for_loop evaluatedList alias nodes kv os)"
| "evaluate_all [] kv os = (os, None)"
| "evaluate_all (n # ns) kv os =
     (case evaluate n kv os of
        (os', None) \<Rightarrow> evaluate_all ns kv os'
      | (os', Some e) \<Rightarrow> (os', Some e))"
| "if_true_loop [] kv os = (os, None)"
| "if_true_loop (n # ns) kv os =
     (if is_elif_or_else n then (os, None)
      else (case evaluate n kv os of
              (os', None) \<Rightarrow> if_true_loop ns kv os'
            | (os', Some e) \<Rightarrow> (os', Some e)))"
| "if_false_loop [] kv os = (os, None)"
| "if_false_loop (n # ns) kv os =
     (if is_elif_or_else n
      then (case evaluate n kv os of
              (os', None) \<Rightarrow> if_false_loop ns kv os'
            | (os', Some e) \<Rightarrow> (os', Some e))
      else if_false_loop ns kv os)"
| "for_loop [] alias nodes newValues os = (os, None)"
| "for_loop (item # items) alias nodes newValues os =
     (case evaluate_all nodes (newValues(alias \<mapsto> item)) os of
        (os', None) \<Rightarrow> for_loop items alias nodes (newValues(alias \<mapsto> item)) os'
      | (os', Some e) \<Rightarrow> (os', Some e))"
  by pat_completeness auto
termination
  by (relation "inv_image (less_than <*lex*> less_than)
        (\<lambda>x. case x of
           Inl (Inl (n, kv, os)) \<Rightarrow> (size n, 0)
         | Inl (Inr (ns, kv, os)) \<Rightarrow> (size_list size ns, 0)
         | Inr (Inl (ns, kv, os)) \<Rightarrow> (size_list size ns, 0)
         | Inr (Inr (Inl (ns, kv, os))) \<Rightarrow> (size_list size ns, 0)
         | Inr (Inr (Inr (items, alias, ns, kv, os))) \<Rightarrow>
             (size_list size ns, Suc (length items)))")
     (simp_all add: wf_lex_prod)

section \<open>Tag parsers\<close>

definition parse_value_tag :: "string \<Rightarrow> error + node" where
  "parse_value_tag s =
     (if \<not> starts_with s ''{$'' \<or> \<not> ends_with s ''}'' then Inl InvalidTagError
      else (let s1 = drop 2 s in
            case erase_from s1 (find_char CHR ''}'' s1) of
              Inl e \<Rightarrow> Inl e
            | Inr s2 \<Rightarrow> new_Value (trim s2)))"

definition parse_forvalue_tag :: "string \<Rightarrow> error + node" where
  "parse_forvalue_tag s =
     (if \<not> starts_with s ''{%'' \<or> \<not> ends_with s ''%}'' then Inl InvalidTagError
      else (let s1 = drop 2 s in
            case erase_from s1 (find_char CHR ''%'' s1) of
              Inl e \<Rightarrow> Inl e
            | Inr s2 \<Rightarrow>
                (let tokens = split (trim s2) CHR '' '' in
                 if length tokens \<noteq> 4 then Inl ExpressionSyntaxError
                 else if tokens ! 0 \<noteq> ''for'' \<or> tokens ! 2 \<noteq> ''as''
                   then Inl ExpressionSyntaxError
                 else new_ForValue (tokens ! 1) (tokens ! 3))))"

section \<open>Notions of the specification\<close>

text \<open>
  A turn of the loop of \<^verbatim>\<open>parse_tag\<close> that goes on to the next segment: the state of
  the loop is the rest of the name and the current mapping. A resolution is at a step
  \<open>(name, kv)\<close> when the reflexive transitive closure of \<open>loop_step\<close> leads there from
  the path and the root mapping.
\<close>

inductive loop_step :: "string \<times> DataMap \<Rightarrow> string \<times> DataMap \<Rightarrow> bool" where
  "cut_segment name = (seg, rest) \<Longrightarrow> rest \<noteq> [] \<Longrightarrow>
   parse_tag_name seg = Inr (mapName, idx) \<Longrightarrow> kv mapName = Some found \<Longrightarrow>
   next_map found idx = Inr m \<Longrightarrow> loop_step (name, kv) (rest, m)"

text \<open>
  The loop of a for node in the words of the specification: for each element, in list
  order, all body children are evaluated against the current context plus the binding of
  the alias to that element. A failure of a body child is thrown on and ends the loop,
  as every failure ends the evaluation it occurs in.
\<close>

fun for_each_spec ::
  "data list \<Rightarrow> string \<Rightarrow> node list \<Rightarrow> DataMap \<Rightarrow> string \<Rightarrow> outcome" where
  "for_each_spec [] alias nodes kv os = (os, None)"
| "for_each_spec (x # xs) alias nodes kv os =
     (case evaluate_all nodes (kv(alias \<mapsto> x)) os of
        (os', None) \<Rightarrow> for_each_spec xs alias nodes kv os'
      | (os', Some e) \<Rightarrow> (os', Some e))"

text \<open>
  The grammars of the specification: the plain name \<^verbatim>\<open>[A-Za-z0-9_-]+\<close> and the path
  expression \<^verbatim>\<open>[A-Za-z0-9_\-\[\]\.]+\<close> with no occurrence of two dots in a row.
\<close>

definition name_class :: "char \<Rightarrow> bool" where
  "name_class c =
     (c \<in> set ''ABCDEFGHIJKLMNOPQRSTUVWXYZ'' \<or> c \<in> set ''abcdefghijklmnopqrstuvwxyz'' \<or>
      c \<in> set ''0123456789'' \<or> c \<in> set ''_-'')"

definition path_class :: "char \<Rightarrow> bool" where
  "path_class c = (name_class c \<or> c \<in> set ''[].'')"

definition contains_dotdot :: "string \<Rightarrow> bool" where
  "contains_dotdot s = (\<exists>before after. s = before @ ''..'' @ after)"

definition matches_path_grammar :: "string \<Rightarrow> bool" where
  "matches_path_grammar s = (s \<noteq> [] \<and> list_all path_class s \<and> \<not> contains_dotdot s)"

definition matches_name_grammar :: "string \<Rightarrow> bool" where
  "matches_name_grammar s = (s \<noteq> [] \<and> list_all name_class s)"

text \<open>
  The context of the example of the specification,
  \<^verbatim>\<open>{user: {name: "Ann", tags: ["a","b"]}}\<close>, and a second one with a list of mappings.
\<close>

definition example_user :: DataMap where
  "example_user =
     [''name'' \<mapsto> DString ''Ann'', ''tags'' \<mapsto> DList [DString ''a'', DString ''b'']]"

definition example_context :: DataMap where
  "example_context = [''user'' \<mapsto> DMapper example_user]"

definition example_host :: DataMap where
  "example_host = [''host'' \<mapsto> DString ''h0'']"

definition example_servers :: DataMap where
  "example_servers =
     [''title'' \<mapsto> DString ''T'',
      ''servers'' \<mapsto> DList [DMapper example_host, DString ''down'']]"

section \<open>Path resolution: the loop\<close>

lemma find_char_none: "(find_char c s = None) = (c \<notin> set s)"
  by (induction s) auto

lemma find_char_append: "c \<notin> set xs \<Longrightarrow> find_char c (xs @ c # ys) = Some (length xs)"
  by (induction xs) auto

lemma find_char_takeWhile:
  "find_char c s = Some p \<Longrightarrow> take p s = takeWhile (\<lambda>x. x \<noteq> c) s"
  by (induction s arbitrary: p) (auto split: if_splits)

lemma cut_segment_append:
  "CHR ''.'' \<notin> set a \<Longrightarrow> cut_segment (a @ CHR ''.'' # b) = (a, b)"
  by (simp add: cut_segment_def find_char_append)

lemma cut_segment_single: "CHR ''.'' \<notin> set name \<Longrightarrow> cut_segment name = (name, [])"
  by (simp add: cut_segment_def find_char_none [symmetric])

lemma cut_segment_no_dot:
  assumes "cut_segment name = (seg, rest)"
  shows "CHR ''.'' \<notin> set seg"
proof (cases "find_char CHR ''.'' name")
  case None
  with assms show ?thesis
    by (simp add: cut_segment_def find_char_none)
next
  case (Some p)
  with assms have "seg = takeWhile (\<lambda>x. x \<noteq> CHR ''.'') name"
    by (simp add: cut_segment_def find_char_takeWhile)
  then show ?thesis
    by (auto dest: set_takeWhileD)
qed

lemma parse_tag_last:
  "cut_segment name = (seg, []) \<Longrightarrow>
   parse_tag name kv =
     (case parse_tag_name seg of
        Inl e \<Rightarrow> Inl e
      | Inr (mapName, idx) \<Rightarrow>
          (case kv mapName of
             None \<Rightarrow> Inl MissingTagError
           | Some found \<Rightarrow> last_tag found idx))"
  by (subst parse_tag.simps) (simp split: sum.splits option.splits prod.splits)

lemma parse_tag_more:
  "cut_segment name = (seg, rest) \<Longrightarrow> rest \<noteq> [] \<Longrightarrow>
   parse_tag name kv =
     (case parse_tag_name seg of
        Inl e \<Rightarrow> Inl e
      | Inr (mapName, idx) \<Rightarrow>
          (case kv mapName of
             None \<Rightarrow> Inl MissingTagError
           | Some found \<Rightarrow>
               (case next_map found idx of Inl e \<Rightarrow> Inl e | Inr m \<Rightarrow> parse_tag rest m)))"
  by (subst parse_tag.simps) (simp split: sum.splits option.splits prod.splits)

lemma parse_tag_single:
  "CHR ''.'' \<notin> set name \<Longrightarrow>
   parse_tag name kv =
     (case parse_tag_name name of
        Inl e \<Rightarrow> Inl e
      | Inr (mapName, idx) \<Rightarrow>
          (case kv mapName of
             None \<Rightarrow> Inl MissingTagError
           | Some found \<Rightarrow> last_tag found idx))"
  by (rule parse_tag_last) (rule cut_segment_single)

lemma loop_step_parse_tag:
  "loop_step a b \<Longrightarrow> parse_tag (fst a) (snd a) = parse_tag (fst b) (snd b)"
  by (induction rule: loop_step.induct) (simp add: parse_tag_more)

lemma loop_steps_parse_tag:
  "loop_step\<^sup>*\<^sup>* a b \<Longrightarrow> parse_tag (fst a) (snd a) = parse_tag (fst b) (snd b)"
  by (induction rule: rtranclp_induct) (simp_all add: loop_step_parse_tag)

text \<open>
  When the last segment fails in every mapping, every path that ends with it fails: the
  loop either stops at an earlier segment with a failure or arrives at the last one.
\<close>

lemma parse_tag_fails_at_last:
  assumes fails: "\<And>m. \<exists>e. parse_tag seg m = Inl e" and seg: "seg \<noteq> []"
  shows "before = [] \<or> last before = CHR ''.'' \<Longrightarrow> \<exists>e. parse_tag (before @ seg) kv = Inl e"
proof (induction "length before" arbitrary: before kv rule: less_induct)
  case less
  show ?case
  proof (cases "before = []")
    case True
    then show ?thesis using fails by simp
  next
    case False
    with less.prems have "CHR ''.'' \<in> set before"
      using last_in_set by metis
    then obtain a b where split: "before = a @ CHR ''.'' # b" and a: "CHR ''.'' \<notin> set a"
      by (meson split_list_first)
    have b: "b = [] \<or> last b = CHR ''.''"
      using less.prems False split by (cases "b = []") simp_all
    have later: "\<And>m. \<exists>e. parse_tag (b @ seg) m = Inl e"
      by (rule less.hyps) (simp_all add: split b)
    have cut: "cut_segment (before @ seg) = (a, b @ seg)"
      using cut_segment_append [OF a, of "b @ seg"] by (simp add: split)
    have more: "b @ seg \<noteq> []"
      using seg by simp
    show ?thesis
      unfolding parse_tag_more [OF cut more]
      using later by (auto split: sum.splits option.splits)
  qed
qed

section \<open>Path resolution: numbers and indices\<close>

lemma if_None_eq_Some: "((if c then None else e) = Some y) = (\<not> c \<and> e = Some y)"
  by simp

lemma read_int_range: "read_int s = Some (v, rest) \<Longrightarrow> int_fits v"
  unfolding read_int_def Let_def if_None_eq_Some by blast

lemma parse_number_range:
  "parse_number s = Some n \<Longrightarrow> - (2 ^ 31) \<le> n \<and> n \<le> 2 ^ 31 - 1"
  using read_int_range [of s n]
  by (auto simp: parse_number_def int_fits_def split: option.splits if_splits)

lemma suffix_bracket: "suffix '']'' (CHR ''['' # s @ '']'')"
  unfolding suffix_def by (rule exI [of _ "CHR ''['' # s"]) simp

lemma parse_tag_name_indexed:
  assumes "CHR ''['' \<notin> set nm"
  shows "parse_tag_name (nm @ ''['' @ ix @ '']'') =
           (case parse_number ix of
              None \<Rightarrow> Inl InvalidTagError
            | Some n \<Rightarrow> if n < 0 then Inl InvalidTagError else Inr (nm, n))"
proof -
  have f: "find_char CHR ''['' (nm @ ''['' @ ix @ '']'') = Some (length nm)"
    using assms by (simp add: find_char_append)
  have p: "parse_array_index (''['' @ ix @ '']'') =
             (case parse_number ix of None \<Rightarrow> Inl InvalidTagError | Some n \<Rightarrow> Inr n)"
    by (simp add: parse_array_index_def starts_with_def ends_with_def suffix_bracket)
  show ?thesis
    unfolding parse_tag_name_def f using p by (simp split: option.splits)
qed

lemma parse_tag_name_idx_range:
  assumes "parse_tag_name seg = Inr (nm, idx)"
  shows "idx = - 1 \<or> (0 \<le> idx \<and> idx < 2 ^ 31)"
proof (cases "find_char CHR ''['' seg")
  case None
  with assms show ?thesis by (simp add: parse_tag_name_def)
next
  case (Some p)
  with assms obtain ix where "parse_number ix = Some idx" and "\<not> idx < 0"
    by (auto simp: parse_tag_name_def parse_array_index_def
          split: sum.splits if_splits option.splits)
  then show ?thesis
    using parse_number_range [of ix idx] by simp
qed

lemma parse_tag_name_error: "parse_tag_name seg = Inl e \<Longrightarrow> e = InvalidTagError"
  by (auto simp: parse_tag_name_def parse_array_index_def
        split: option.splits sum.splits if_splits)

lemma size_t_of_int_nonneg: "0 \<le> i \<Longrightarrow> i < 2 ^ 31 \<Longrightarrow> size_t_of_int i = nat i"
  by (simp add: size_t_of_int_def)

lemma size_t_of_int_minus_one: "size_t_of_int (- 1) = 2 ^ 64 - 1"
  by (simp add: size_t_of_int_def)

lemma idx_ge_size_nonneg:
  "0 \<le> idx \<Longrightarrow> idx < 2 ^ 31 \<Longrightarrow> idx_ge_size idx xs = (length xs \<le> nat idx)"
  by (simp add: idx_ge_size_def size_t_of_int_nonneg)

section \<open>Path resolution on the example contexts\<close>

lemmas path_eval =
  cut_segment_def parse_tag_name_def parse_array_index_def parse_number_def read_int_def
  int_fits_def starts_with_def ends_with_def suffix_to_prefix isspace_def isdigit_def
  digits_value_def last_tag_def next_map_def idx_ge_size_def size_t_of_int_def

lemma example_step_user:
  assumes "rest \<noteq> []"
  shows "loop_step (''user.'' @ rest, example_context) (rest, example_user)"
proof (rule loop_step.intros)
  show "cut_segment (''user.'' @ rest) = (''user'', rest)"
    using cut_segment_append [of "''user''" rest] by simp
  show "rest \<noteq> []" by (rule assms)
  show "parse_tag_name ''user'' = Inr (''user'', - 1)"
    by (simp add: parse_tag_name_def)
  show "example_context ''user'' = Some (DMapper example_user)"
    by (simp add: example_context_def)
  show "next_map (DMapper example_user) (- 1) = Inr example_user"
    by (simp add: next_map_def)
qed

lemma example_through_user:
  "rest \<noteq> [] \<Longrightarrow> parse_tag (''user.'' @ rest) example_context = parse_tag rest example_user"
  using loop_step_parse_tag [OF example_step_user] by simp

lemma example_name: "parse_tag ''name'' example_user = Inr (DString ''Ann'')"
  by (simp add: parse_tag_single path_eval example_user_def)

lemma example_tags: "parse_tag ''tags'' example_user = Inr (DList [DString ''a'', DString ''b''])"
  by (simp add: parse_tag_single path_eval example_user_def)

lemma example_user_tags_1: "parse_tag ''tags[1]'' example_user = Inl InvalidTagError"
  by (simp add: parse_tag_single path_eval example_user_def)

lemma example_user_tags_1_spaced: "parse_tag ''tags[1 ]'' example_user = Inr (DString ''b'')"
  by (simp add: parse_tag_single path_eval example_user_def)

lemma example_user_tags_5: "parse_tag ''tags[5]'' example_user = Inl InvalidTagError"
  by (simp add: parse_tag_single path_eval example_user_def)

lemma example_user_name: "parse_tag ''user.name'' example_context = Inr (DString ''Ann'')"
  using example_through_user [of "''name''"] example_name by simp

lemma example_user_tags:
  "parse_tag ''user.tags'' example_context = Inr (DList [DString ''a'', DString ''b''])"
  using example_through_user [of "''tags''"] example_tags by simp

lemma example_user_mapping: "parse_tag ''user'' example_context = Inr (DMapper example_user)"
  by (simp add: parse_tag_single path_eval example_context_def)

lemma example_tags_1: "parse_tag ''user.tags[1]'' example_context = Inl InvalidTagError"
  using example_through_user [of "''tags[1]''"] example_user_tags_1 by simp

lemma example_tags_1_spaced: "parse_tag ''user.tags[1 ]'' example_context = Inr (DString ''b'')"
  using example_through_user [of "''tags[1 ]''"] example_user_tags_1_spaced by simp

lemma example_tags_5: "parse_tag ''user.tags[5]'' example_context = Inl InvalidTagError"
  using example_through_user [of "''tags[5]''"] example_user_tags_5 by simp

lemma example_missing: "parse_tag ''missing.x'' example_context = Inl MissingTagError"
  by (subst parse_tag.simps) (simp add: path_eval example_context_def)

section \<open>Claims on path resolution\<close>

text \<open>
  C5, as amended: when a resolution arrives at its final segment and that segment carries
  an index \<open>n\<close>, it fails with \<open>InvalidTagError\<close> if \<open>n\<close> is negative, if the value
  of the segment is a list with at most \<open>n\<close> elements, or if the value is not a list at
  all (a string, which is never indexed by character, or a mapping); it fails in the same
  way when the text between the brackets is not accepted as a number. A path whose final
  segment has a negative or unaccepted index returns no value in any mapping, also when
  an earlier segment fails before the final one is looked at.
\<close>

theorem parse_tag_bad_final_index:
  assumes reach: "loop_step\<^sup>*\<^sup>* (path, root) (name, kv)"
    and final: "cut_segment name = (nm @ ''['' @ ix @ '']'', [])"
    and nm: "CHR ''['' \<notin> set nm"
  shows "(parse_number ix = None \<longrightarrow> parse_tag path root = Inl InvalidTagError) \<and>
         (parse_number ix = Some n \<and> n < 0 \<longrightarrow> parse_tag path root = Inl InvalidTagError) \<and>
         (parse_number ix = Some n \<and> kv nm = Some (DList xs) \<and> int (length xs) \<le> n \<longrightarrow>
            parse_tag path root = Inl InvalidTagError) \<and>
         (kv nm = Some (DString s) \<longrightarrow> parse_tag path root = Inl InvalidTagError) \<and>
         (kv nm = Some (DMapper m) \<longrightarrow> parse_tag path root = Inl InvalidTagError) \<and>
         ((parse_number ix = None \<or> (parse_number ix = Some n \<and> n < 0)) \<and>
          (before = [] \<or> last before = CHR ''.'') \<longrightarrow>
            (\<exists>e. parse_tag (before @ nm @ ''['' @ ix @ '']'') kv' = Inl e))"
proof -
  have whole: "parse_tag path root = parse_tag name kv"
    using loop_steps_parse_tag [OF reach] by simp
  note seg = parse_tag_name_indexed [OF nm, of ix]
  have last: "parse_tag name kv =
      (case parse_number ix of
         None \<Rightarrow> Inl InvalidTagError
       | Some i \<Rightarrow>
           if i < 0 then Inl InvalidTagError
           else (case kv nm of
                   None \<Rightarrow> Inl MissingTagError
                 | Some found \<Rightarrow> last_tag found i))"
    using parse_tag_last [OF final, of kv] seg by (simp split: option.splits)
  have 1: "parse_number ix = None \<longrightarrow> parse_tag path root = Inl InvalidTagError"
    unfolding whole last by simp
  have 2: "parse_number ix = Some n \<and> n < 0 \<longrightarrow> parse_tag path root = Inl InvalidTagError"
    unfolding whole last by simp
  have 3: "parse_number ix = Some n \<and> kv nm = Some (DList xs) \<and> int (length xs) \<le> n \<longrightarrow>
            parse_tag path root = Inl InvalidTagError"
  proof
    assume a: "parse_number ix = Some n \<and> kv nm = Some (DList xs) \<and> int (length xs) \<le> n"
    then have "n < 2 ^ 31"
      using parse_number_range [of ix n] by simp
    with a show "parse_tag path root = Inl InvalidTagError"
      unfolding whole last by (auto simp: last_tag_def idx_ge_size_nonneg)
  qed
  have other: "parse_tag path root = Inl InvalidTagError"
    if "kv nm = Some v" and "\<And>ys. v \<noteq> DList ys" for v
    unfolding whole last using that
    by (cases v) (auto simp: last_tag_def split: option.splits)
  have 4: "kv nm = Some (DString s) \<longrightarrow> parse_tag path root = Inl InvalidTagError"
    using other [of "DString s"] by simp
  have 5: "kv nm = Some (DMapper m) \<longrightarrow> parse_tag path root = Inl InvalidTagError"
    using other [of "DMapper m"] by simp
  have 6: "\<exists>e. parse_tag (before @ nm @ ''['' @ ix @ '']'') kv' = Inl e"
    if bad: "parse_number ix = None \<or> (parse_number ix = Some n \<and> n < 0)"
      and before: "before = [] \<or> last before = CHR ''.''"
  proof (rule parse_tag_fails_at_last [OF _ _ before])
    show "nm @ ''['' @ ix @ '']'' \<noteq> []" by simp
    fix m'
    have "CHR ''.'' \<notin> set (nm @ ''['' @ ix @ '']'')"
      by (rule cut_segment_no_dot [OF final])
    then have "parse_tag (nm @ ''['' @ ix @ '']'') m' = Inl InvalidTagError"
      using seg bad by (auto simp: parse_tag_single)
    then show "\<exists>e. parse_tag (nm @ ''['' @ ix @ '']'') m' = Inl e" ..
  qed
  from 1 2 3 4 5 6 show ?thesis by blast
qed

theorem parse_tag_bad_final_index_witness:
  "loop_step\<^sup>*\<^sup>* (''user.tags[5 ]'', example_context) (''tags[5 ]'', example_user) \<and>
   cut_segment ''tags[5 ]'' = (''tags'' @ ''['' @ ''5 '' @ '']'', []) \<and>
   parse_number ''5 '' = Some 5 \<and>
   example_user ''tags'' = Some (DList [DString ''a'', DString ''b'']) \<and>
   parse_tag ''user.tags[5 ]'' example_context = Inl InvalidTagError \<and>
   parse_number ''-1 '' = Some (- 1) \<and>
   parse_tag ''user.tags[-1 ]'' example_context = Inl InvalidTagError \<and>
   example_user ''name'' = Some (DString ''Ann'') \<and>
   parse_tag ''user.name[0 ]'' example_context = Inl InvalidTagError \<and>
   parse_number ''5'' = None \<and>
   parse_tag ''user.tags[5]'' example_context = Inl InvalidTagError"
proof -
  note c = parse_tag_bad_final_index
  have r5: "loop_step\<^sup>*\<^sup>* (''user.tags[5 ]'', example_context) (''tags[5 ]'', example_user)"
    using example_step_user [of "''tags[5 ]''"] by simp
  have rm: "loop_step\<^sup>*\<^sup>* (''user.tags[-1 ]'', example_context) (''tags[-1 ]'', example_user)"
    using example_step_user [of "''tags[-1 ]''"] by simp
  have r0: "loop_step\<^sup>*\<^sup>* (''user.name[0 ]'', example_context) (''name[0 ]'', example_user)"
    using example_step_user [of "''name[0 ]''"] by simp
  have rc: "loop_step\<^sup>*\<^sup>* (''user.tags[5]'', example_context) (''tags[5]'', example_user)"
    using example_step_user [of "''tags[5]''"] by simp
  have c5: "cut_segment ''tags[5 ]'' = (''tags'' @ ''['' @ ''5 '' @ '']'', [])"
    by (simp add: cut_segment_def)
  have cm: "cut_segment ''tags[-1 ]'' = (''tags'' @ ''['' @ ''-1 '' @ '']'', [])"
    by (simp add: cut_segment_def)
  have c0: "cut_segment ''name[0 ]'' = (''name'' @ ''['' @ ''0 '' @ '']'', [])"
    by (simp add: cut_segment_def)
  have cc: "cut_segment ''tags[5]'' = (''tags'' @ ''['' @ ''5'' @ '']'', [])"
    by (simp add: cut_segment_def)
  have n5: "parse_number ''5 '' = Some 5"
    by (simp add: path_eval)
  have nm: "parse_number ''-1 '' = Some (- 1)"
    by (simp add: path_eval)
  have nc: "parse_number ''5'' = None"
    by (simp add: path_eval)
  have tags: "example_user ''tags'' = Some (DList [DString ''a'', DString ''b''])"
    by (simp add: example_user_def)
  have name: "example_user ''name'' = Some (DString ''Ann'')"
    by (simp add: example_user_def)
  have 1: "parse_tag ''user.tags[5 ]'' example_context = Inl InvalidTagError"
    using c [OF r5 c5, of 5 "[DString ''a'', DString ''b'']"] n5 tags by simp
  have 2: "parse_tag ''user.tags[-1 ]'' example_context = Inl InvalidTagError"
    using c [OF rm cm, of "- 1"] nm by simp
  have 3: "parse_tag ''user.name[0 ]'' example_context = Inl InvalidTagError"
    using c [OF r0 c0, of _ _ "''Ann''"] name by simp
  have 4: "parse_tag ''user.tags[5]'' example_context = Inl InvalidTagError"
    using c [OF rc cc] nc by simp
  from r5 c5 n5 tags 1 nm 2 name 3 nc 4 show ?thesis by blast
qed

text \<open>
  The claim as stated fails where an earlier segment fails first: the failure is the one
  of that segment, here \<open>MissingTagError\<close>, although the final segment carries a
  negative index.
\<close>

theorem parse_tag_bad_final_index_counterexample:
  "cut_segment ''missing.x[-1 ]'' = (''missing'', ''x[-1 ]'') \<and>
   parse_number ''-1 '' = Some (- 1) \<and>
   parse_tag ''missing.x[-1 ]'' Map.empty = Inl MissingTagError \<and>
   parse_tag ''missing.x[-1 ]'' Map.empty \<noteq> Inl InvalidTagError \<and>
   parse_tag ''missing.x[-1]'' Map.empty = Inl MissingTagError"
proof -
  have c: "cut_segment ''missing.x[-1 ]'' = (''missing'', ''x[-1 ]'')"
    by (simp add: cut_segment_def)
  have c': "cut_segment ''missing.x[-1]'' = (''missing'', ''x[-1]'')"
    by (simp add: cut_segment_def)
  have n: "parse_number ''-1 '' = Some (- 1)"
    by (simp add: path_eval)
  have s: "parse_tag_name ''missing'' = Inr (''missing'', - 1)"
    by (simp add: path_eval)
  have 1: "parse_tag ''missing.x[-1 ]'' Map.empty = Inl MissingTagError"
    by (subst parse_tag.simps) (simp add: c s)
  have 2: "parse_tag ''missing.x[-1]'' Map.empty = Inl MissingTagError"
    by (subst parse_tag.simps) (simp add: c' s)
  from c n 1 2 show ?thesis by simp
qed

text \<open>
  The steps of the loop before the last segment. A segment that does not parse fails with
  \<open>InvalidTagError\<close>. For a segment that parses and whose name is present, a mapping
  becomes the current mapping, and so does the element of a list at the index when the
  index is in range and the element is a mapping; a string, an element that is not a
  mapping, an index at or beyond the length, and a list named without an index (the
  missing index \<open>- 1\<close> is compared as the largest \<^verbatim>\<open>size_t\<close>) fail with
  \<open>InvalidTagError\<close>.
\<close>

lemma parse_tag_descends:
  assumes reach: "loop_step\<^sup>*\<^sup>* (path, root) (name, kv)"
    and cut: "cut_segment name = (seg, rest)" and more: "rest \<noteq> []"
  shows "(parse_tag_name seg = Inl e \<longrightarrow> parse_tag path root = Inl InvalidTagError) \<and>
         (parse_tag_name seg = Inr (nm, idx) \<and> kv nm = Some found \<longrightarrow>
           (found = DMapper m \<longrightarrow>
              loop_step (name, kv) (rest, m) \<and> parse_tag path root = parse_tag rest m) \<and>
           (found = DList xs \<and> 0 \<le> idx \<and> nat idx < length xs \<and> xs ! nat idx = DMapper m \<longrightarrow>
              loop_step (name, kv) (rest, m) \<and> parse_tag path root = parse_tag rest m) \<and>
           (found = DString s \<longrightarrow> parse_tag path root = Inl InvalidTagError) \<and>
           (found = DList xs \<and> 0 \<le> idx \<and> nat idx < length xs \<and>
              (\<forall>m'. xs ! nat idx \<noteq> DMapper m') \<longrightarrow>
              parse_tag path root = Inl InvalidTagError) \<and>
           (found = DList xs \<and> 0 \<le> idx \<and> length xs \<le> nat idx \<longrightarrow>
              parse_tag path root = Inl InvalidTagError) \<and>
           (found = DList xs \<and> idx < 0 \<and> length xs < 2 ^ 64 \<longrightarrow>
              parse_tag path root = Inl InvalidTagError))"
proof (intro conjI impI)
  have whole: "parse_tag path root = parse_tag name kv"
    using loop_steps_parse_tag [OF reach] by simp
  show "parse_tag path root = Inl InvalidTagError" if "parse_tag_name seg = Inl e"
    unfolding whole parse_tag_more [OF cut more]
    using that parse_tag_name_error [OF that] by simp
  assume "parse_tag_name seg = Inr (nm, idx) \<and> kv nm = Some found"
  then have seg: "parse_tag_name seg = Inr (nm, idx)" and found: "kv nm = Some found"
    by simp_all
  have step: "parse_tag name kv =
      (case next_map found idx of Inl e \<Rightarrow> Inl e | Inr m \<Rightarrow> parse_tag rest m)"
    using parse_tag_more [OF cut more, of kv] seg found by simp
  have go: "next_map found idx = Inr m \<Longrightarrow> loop_step (name, kv) (rest, m)" for m
    by (rule loop_step.intros [where kv = kv, OF cut more seg found])
  have range: "idx = - 1 \<or> (0 \<le> idx \<and> idx < 2 ^ 31)"
    by (rule parse_tag_name_idx_range [OF seg])
  show "loop_step (name, kv) (rest, m)" and "parse_tag path root = parse_tag rest m"
    if "found = DMapper m"
    unfolding whole step using that go [of m] by (simp_all add: next_map_def)
  show "loop_step (name, kv) (rest, m)" and "parse_tag path root = parse_tag rest m"
    if "found = DList xs \<and> 0 \<le> idx \<and> nat idx < length xs \<and> xs ! nat idx = DMapper m"
    unfolding whole step using that range go [of m]
    by (auto simp: next_map_def idx_ge_size_nonneg size_t_of_int_nonneg)
  show "parse_tag path root = Inl InvalidTagError" if "found = DString s"
    unfolding whole step using that by (simp add: next_map_def)
  show "parse_tag path root = Inl InvalidTagError"
    if "found = DList xs \<and> 0 \<le> idx \<and> nat idx < length xs \<and>
          (\<forall>m'. xs ! nat idx \<noteq> DMapper m')"
    unfolding whole step using that range
    by (auto simp: next_map_def idx_ge_size_nonneg size_t_of_int_nonneg split: data.splits)
  show "parse_tag path root = Inl InvalidTagError"
    if "found = DList xs \<and> 0 \<le> idx \<and> length xs \<le> nat idx"
    unfolding whole step using that range
    by (auto simp: next_map_def idx_ge_size_nonneg)
  show "parse_tag path root = Inl InvalidTagError"
    if "found = DList xs \<and> idx < 0 \<and> length xs < 2 ^ 64"
    unfolding whole step using that range
    by (auto simp: next_map_def idx_ge_size_def size_t_of_int_minus_one)
qed

lemma example_host_name: "parse_tag ''host'' example_host = Inr (DString ''h0'')"
  by (simp add: parse_tag_single path_eval example_host_def)

lemma example_servers_list:
  "example_servers ''servers'' = Some (DList [DMapper example_host, DString ''down''])"
  by (simp add: example_servers_def)

lemma example_servers_spaced:
  "parse_tag ''servers[0 ].host'' example_servers = Inr (DString ''h0'')"
  by (subst parse_tag.simps) (simp add: path_eval example_servers_def example_host_name)

text \<open>
  C7: the claim is that a segment before the last may name a list whose element at an
  index in range is a mapping, which becomes the current mapping; the doc comment of
  \<^verbatim>\<open>parse_tag\<close> gives \<^verbatim>\<open>config.servers[1].users[6].username\<close> as such a path, and the
  one of \<^verbatim>\<open>parse_tag_name\<close> says that \<^verbatim>\<open>config[5]\<close> gives the name and 5. In the code
  \<^verbatim>\<open>parse_number\<close> rejects an index whose digits are followed at once by the closing
  bracket, so the resolution fails with \<open>InvalidTagError\<close> at the segment
  \<^verbatim>\<open>servers[0]\<close> although element 0 of the list is a mapping that holds \<^verbatim>\<open>host\<close>; the
  step is taken only when white space follows the digits.
\<close>

theorem parse_tag_rejects_list_descent:
  "example_servers ''servers'' = Some (DList [DMapper example_host, DString ''down'']) \<and>
   parse_tag ''host'' example_host = Inr (DString ''h0'') \<and>
   parse_number ''0'' = None \<and>
   parse_tag_name ''servers[0]'' = Inl InvalidTagError \<and>
   parse_tag ''servers[0].host'' example_servers = Inl InvalidTagError \<and>
   parse_tag ''servers[0 ].host'' example_servers = Inr (DString ''h0'')"
proof -
  have n: "parse_number ''0'' = None"
    by (simp add: path_eval)
  have s: "parse_tag_name ''servers[0]'' = Inl InvalidTagError"
    by (simp add: path_eval)
  have c: "cut_segment ''servers[0].host'' = (''servers[0]'', ''host'')"
    by (simp add: cut_segment_def)
  have "parse_tag ''servers[0].host'' example_servers = Inl InvalidTagError"
    by (subst parse_tag.simps) (simp add: c s)
  with n s show ?thesis
    by (simp add: example_servers_list example_host_name example_servers_spaced)
qed

text \<open>
  At any step of a resolution, a segment that parses and whose name is absent from the
  current mapping fails with \<open>MissingTagError\<close>.
\<close>

lemma parse_tag_missing_name:
  assumes reach: "loop_step\<^sup>*\<^sup>* (path, root) (name, kv)"
    and cut: "cut_segment name = (seg, rest)"
    and seg: "parse_tag_name seg = Inr (nm, idx)"
    and absent: "kv nm = None"
  shows "parse_tag path root = Inl MissingTagError"
proof -
  have whole: "parse_tag path root = parse_tag name kv"
    using loop_steps_parse_tag [OF reach] by simp
  have "parse_tag name kv = Inl MissingTagError"
    by (subst parse_tag.simps) (simp add: cut seg absent)
  with whole show ?thesis by simp
qed

text \<open>
  C6: the claim is that an absent name fails with \<open>MissingTagError\<close> and that, against
  the context \<^verbatim>\<open>{user: {name: "Ann", tags: ["a","b"]}}\<close>, the path \<^verbatim>\<open>user.tags[1]\<close>
  resolves to \<^verbatim>\<open>"b"\<close>. The doc comment of \<^verbatim>\<open>parse_array_index\<close> says that \<^verbatim>\<open>[5]\<close>
  gives 5, but \<^verbatim>\<open>parse_number\<close> rejects digits that end the text: \<^verbatim>\<open>[1]\<close> is no index
  for the code. So \<^verbatim>\<open>user.tags[1]\<close> fails with \<open>InvalidTagError\<close> (with a space after
  the digit it resolves to \<^verbatim>\<open>"b"\<close>), and the absent name of \<^verbatim>\<open>missing[0]\<close> fails with
  \<open>InvalidTagError\<close> and not with \<open>MissingTagError\<close>. The other two examples of the
  claim hold: \<^verbatim>\<open>user.tags[5]\<close> fails with \<open>InvalidTagError\<close> and \<^verbatim>\<open>missing.x\<close> with
  \<open>MissingTagError\<close>.
\<close>

theorem parse_tag_rejects_example_index:
  "parse_number ''1'' = None \<and>
   parse_tag_name ''tags[1]'' = Inl InvalidTagError \<and>
   parse_tag ''user.tags[1]'' example_context = Inl InvalidTagError \<and>
   parse_tag ''user.tags[1 ]'' example_context = Inr (DString ''b'') \<and>
   Map.empty ''missing'' = (None :: data option) \<and>
   parse_tag ''missing[0]'' Map.empty = Inl InvalidTagError \<and>
   parse_tag ''user.tags[5]'' example_context = Inl InvalidTagError \<and>
   parse_tag ''missing.x'' example_context = Inl MissingTagError"
proof -
  have n: "parse_number ''1'' = None"
    by (simp add: path_eval)
  have a: "parse_tag_name ''tags[1]'' = Inl InvalidTagError"
    by (simp add: path_eval)
  have m: "parse_tag ''missing[0]'' Map.empty = Inl InvalidTagError"
    by (simp add: parse_tag_single path_eval)
  from n a m show ?thesis
    by (simp add: example_tags_1 example_tags_1_spaced example_tags_5 example_missing)
qed

section \<open>Claims on the evaluation of nodes\<close>

lemma parse_tag_plain_name:
  "CHR ''.'' \<notin> set name \<Longrightarrow> CHR ''['' \<notin> set name \<Longrightarrow>
   parse_tag name kv = (case kv name of None \<Rightarrow> Inl MissingTagError | Some v \<Rightarrow> Inr v)"
  by (simp add: parse_tag_single parse_tag_name_def find_char_none [symmetric] last_tag_def
        split: option.splits)

lemma if_true_loop_takeWhile:
  "if_true_loop nodes kv os =
     evaluate_all (takeWhile (\<lambda>n. \<not> is_elif_or_else n) nodes) kv os"
proof (induction nodes arbitrary: os)
  case Nil
  show ?case by simp
next
  case (Cons n ns)
  show ?case
    by (cases "evaluate n kv os") (simp add: Cons.IH split: option.splits)
qed

lemma if_false_loop_filter:
  "if_false_loop nodes kv os = evaluate_all (filter is_elif_or_else nodes) kv os"
proof (induction nodes arbitrary: os)
  case Nil
  show ?case by simp
next
  case (Cons n ns)
  show ?case
    by (cases "evaluate n kv os") (simp add: Cons.IH split: option.splits)
qed

text \<open>
  C1: the claim is that an if node whose name is absent evaluates only its first elif or
  else child. The second loop of \<^verbatim>\<open>IfValue::evaluate\<close> has no \<^verbatim>\<open>break\<close>, unlike the
  first one: it evaluates every elif and else child in turn (\<open>if_false_loop_filter\<close>).
  With \<^verbatim>\<open>a\<close> absent and \<^verbatim>\<open>b\<close> present, the chain if \<^verbatim>\<open>a\<close>, elif \<^verbatim>\<open>b\<close>, else writes the
  branch of the elif and the branch of the else, where the elif alone writes \<^verbatim>\<open>B\<close>.
\<close>

theorem IfValue_evaluates_every_elif_and_else:
  "evaluate (IfValue ''a'' [Text ''A'', ElifValue ''b'' [Text ''B''], ElseValue [Text ''E'']])
     [''b'' \<mapsto> DString ''x''] [] = (''BE'', None) \<and>
   evaluate (ElifValue ''b'' [Text ''B'']) [''b'' \<mapsto> DString ''x''] [] = (''B'', None)"
  by (simp add: is_elif_or_else_def)

text \<open>
  C2: a value node writes exactly the string its path resolves to; when the resolution
  fails with \<open>MissingTagError\<close> it writes nothing and throws nothing; when the path
  resolves to a list or a mapping it fails with \<open>InvalidTagError\<close>; every failure of the
  resolution other than \<open>MissingTagError\<close> is thrown on. This holds for every name, the
  valid ones among them.
\<close>

theorem Value_evaluate_absorbs_only_MissingTag:
  "(parse_tag name kv = Inr (DString s) \<longrightarrow> evaluate (Value name) kv os = (os @ s, None)) \<and>
   (parse_tag name kv = Inl MissingTagError \<longrightarrow> evaluate (Value name) kv os = (os, None)) \<and>
   (parse_tag name kv = Inr (DList xs) \<longrightarrow>
      evaluate (Value name) kv os = (os, Some InvalidTagError)) \<and>
   (parse_tag name kv = Inr (DMapper m) \<longrightarrow>
      evaluate (Value name) kv os = (os, Some InvalidTagError)) \<and>
   (parse_tag name kv = Inl e \<and> e \<noteq> MissingTagError \<longrightarrow>
      evaluate (Value name) kv os = (os, Some e))"
  by (cases e) (simp_all add: parse_tag_string_def)

theorem Value_evaluate_witness:
  "new_Value ''user.name'' = Inr (Value ''user.name'') \<and>
   evaluate (Value ''user.name'') example_context ''Hi '' = (''Hi Ann'', None) \<and>
   evaluate (Value ''missing.x'') example_context ''Hi '' = (''Hi '', None) \<and>
   evaluate (Value ''user.tags'') example_context ''Hi '' = (''Hi '', Some InvalidTagError) \<and>
   evaluate (Value ''user'') example_context ''Hi '' = (''Hi '', Some InvalidTagError) \<and>
   evaluate (Value ''user.tags[5]'') example_context ''Hi '' = (''Hi '', Some InvalidTagError)"
proof -
  note c = Value_evaluate_absorbs_only_MissingTag
  have valid: "new_Value ''user.name'' = Inr (Value ''user.name'')"
    by (simp add: new_Value_def isValidNameExpression_def specialNameValidator_def)
  have 1: "evaluate (Value ''user.name'') example_context ''Hi '' = (''Hi Ann'', None)"
    using c [of "''user.name''" example_context "''Ann''" "''Hi ''"] example_user_name by simp
  have 2: "evaluate (Value ''missing.x'') example_context ''Hi '' = (''Hi '', None)"
    using c [of "''missing.x''" example_context _ "''Hi ''"] example_missing by simp
  have 3: "evaluate (Value ''user.tags'') example_context ''Hi '' =
             (''Hi '', Some InvalidTagError)"
    using c [of "''user.tags''" example_context _ "''Hi ''"] example_user_tags by simp
  have 4: "evaluate (Value ''user'') example_context ''Hi '' = (''Hi '', Some InvalidTagError)"
    using c [of "''user''" example_context _ "''Hi ''"] example_user_mapping by simp
  have 5: "evaluate (Value ''user.tags[5]'') example_context ''Hi '' =
             (''Hi '', Some InvalidTagError)"
    using c [of "''user.tags[5]''" example_context _ "''Hi ''" _ _ InvalidTagError]
      example_tags_5 by simp
  from valid 1 2 3 4 5 show ?thesis by blast
qed

lemma for_loop_for_each_spec:
  "(\<And>x. newValues(alias \<mapsto> x) = kv(alias \<mapsto> x)) \<Longrightarrow>
   for_loop items alias nodes newValues os = for_each_spec items alias nodes kv os"
proof (induction items arbitrary: newValues os)
  case Nil
  show ?case by simp
next
  case (Cons item items)
  have same: "newValues(alias \<mapsto> item) = kv(alias \<mapsto> item)"
    by (rule Cons.prems)
  have later: "for_loop items alias nodes (newValues(alias \<mapsto> item)) os' =
      for_each_spec items alias nodes kv os'" for os'
  proof (rule Cons.IH)
    fix x
    show "(newValues(alias \<mapsto> item))(alias \<mapsto> x) = kv(alias \<mapsto> x)"
      by (simp only: fun_upd_upd Cons.prems)
  qed
  show ?case
    by (simp add: later) (simp add: same)
qed

lemma for_each_spec_Text:
  "for_each_spec xs alias [Text t] kv os = (os @ concat (replicate (length xs) t), None)"
  by (induction xs arbitrary: os) simp_all

lemma isValidName_plain:
  "isValidName alias \<Longrightarrow> CHR ''.'' \<notin> set alias \<and> CHR ''['' \<notin> set alias"
  by (auto simp: isValidName_def list_all_iff genericNameValidator_def)

lemma for_each_spec_Value:
  assumes "isValidName alias"
  shows "for_each_spec (map DString ss) alias [Value alias] kv os = (os @ concat ss, None)"
proof (induction ss arbitrary: os)
  case Nil
  show ?case by simp
next
  case (Cons a ss)
  have "parse_tag alias (kv(alias \<mapsto> DString a)) = Inr (DString a)"
    using isValidName_plain [OF assms] by (simp add: parse_tag_plain_name)
  then have "evaluate_all [Value alias] (kv(alias \<mapsto> DString a)) os = (os @ a, None)"
    by (simp add: parse_tag_string_def)
  then show ?case
    using Cons.IH [of "os @ a"] by simp
qed

text \<open>
  C3: when the source of a for node resolves to a list and the alias is not a key of the
  context, the evaluation is the loop of the specification: once per element, in list
  order, all body children against the context plus the binding of the alias to that
  element (the one copy \<^verbatim>\<open>newValues\<close> of the code, assigned again in each turn, is that
  context every time). A body of one text is written once per element, and a body that
  substitutes the alias writes the elements in their order. The context passed in is
  not changed: the siblings after the loop are evaluated against it, where the alias is
  still absent.
\<close>

theorem ForValue_evaluate_iterates:
  assumes "parse_tag name kv = Inr (DList xs)" and "kv alias = None"
  shows "evaluate (ForValue name alias nodes) kv os = for_each_spec xs alias nodes kv os \<and>
         evaluate (ForValue name alias [Text t]) kv os =
           (os @ concat (replicate (length xs) t), None) \<and>
         (isValidName alias \<and> xs = map DString ss \<longrightarrow>
            evaluate (ForValue name alias [Value alias]) kv os = (os @ concat ss, None)) \<and>
         evaluate_all (ForValue name alias nodes # siblings) kv os =
           (case for_each_spec xs alias nodes kv os of
              (os', None) \<Rightarrow> evaluate_all siblings kv os'
            | (os', Some e) \<Rightarrow> (os', Some e))"
proof -
  have loop: "evaluate (ForValue name alias body) kv os = for_each_spec xs alias body kv os"
    for body
  proof -
    have "evaluate (ForValue name alias body) kv os = for_loop xs alias body kv os"
      using assms by (simp add: parse_tag_list_def)
    also have "\<dots> = for_each_spec xs alias body kv os"
      by (rule for_loop_for_each_spec) simp
    finally show ?thesis .
  qed
  have count: "evaluate (ForValue name alias [Text t]) kv os =
           (os @ concat (replicate (length xs) t), None)"
    unfolding loop by (rule for_each_spec_Text)
  have order: "isValidName alias \<and> xs = map DString ss \<longrightarrow>
            evaluate (ForValue name alias [Value alias]) kv os = (os @ concat ss, None)"
    unfolding loop by (simp add: for_each_spec_Value)
  have after: "evaluate_all (ForValue name alias nodes # siblings) kv os =
           (case for_each_spec xs alias nodes kv os of
              (os', None) \<Rightarrow> evaluate_all siblings kv os'
            | (os', Some e) \<Rightarrow> (os', Some e))"
    by (simp only: evaluate_all.simps loop)
  from loop [of nodes] count order after show ?thesis by blast
qed

theorem ForValue_evaluate_iterates_witness:
  "parse_tag ''user.tags'' example_context = Inr (DList [DString ''a'', DString ''b'']) \<and>
   example_context ''tag'' = None \<and>
   evaluate (ForValue ''user.tags'' ''tag'' [Value ''tag'', Text '','']) example_context ''>'' =
     (''>a,b,'', None) \<and>
   evaluate (ForValue ''user.tags'' ''tag'' [Text ''*'']) example_context ''>'' =
     (''>**'', None) \<and>
   isValidName ''tag'' \<and>
   evaluate (ForValue ''user.tags'' ''tag'' [Value ''tag'']) example_context ''>'' =
     (''>ab'', None) \<and>
   evaluate_all [ForValue ''user.tags'' ''tag'' [Value ''tag'', Text '',''], Value ''tag'']
     example_context ''>'' = (''>a,b,'', None)"
proof -
  have absent: "example_context ''tag'' = None"
    by (simp add: example_context_def)
  have inside: "parse_tag ''tag'' (example_context(''tag'' \<mapsto> DString x)) = Inr (DString x)"
    for x
    by (simp add: parse_tag_plain_name)
  have body: "evaluate_all [Value ''tag'', Text '',''] (example_context(''tag'' \<mapsto> DString x)) os
                = (os @ x @ '','', None)" for x os
    by (simp add: parse_tag_string_def inside)
  have loop: "for_each_spec [DString ''a'', DString ''b''] ''tag'' [Value ''tag'', Text '','']
                example_context ''>'' = (''>a,b,'', None)"
    by (simp only: for_each_spec.simps body prod.case option.case) simp
  have after: "evaluate (Value ''tag'') example_context os = (os, None)" for os
    by (simp add: parse_tag_string_def parse_tag_plain_name absent)
  have valid: "isValidName ''tag''"
    by (simp add: isValidName_def genericNameValidator_def)
  note c = ForValue_evaluate_iterates [OF example_user_tags absent,
      of "[Value ''tag'', Text '','']" "''>''" "''*''" "[''a'', ''b'']" "[Value ''tag'']"]
  have 1: "evaluate (ForValue ''user.tags'' ''tag'' [Value ''tag'', Text '','']) example_context
             ''>'' = (''>a,b,'', None)"
    using c [THEN conjunct1] unfolding loop .
  have 2: "evaluate (ForValue ''user.tags'' ''tag'' [Text ''*'']) example_context ''>'' =
             (''>**'', None)"
    using c [THEN conjunct2, THEN conjunct1] by (simp add: numeral_2_eq_2)
  have 3: "evaluate (ForValue ''user.tags'' ''tag'' [Value ''tag'']) example_context ''>'' =
             (''>ab'', None)"
    using c [THEN conjunct2, THEN conjunct2, THEN conjunct1] valid by simp
  have 4: "evaluate_all [ForValue ''user.tags'' ''tag'' [Value ''tag'', Text '',''], Value ''tag'']
             example_context ''>'' = (''>a,b,'', None)"
    using c [THEN conjunct2, THEN conjunct2, THEN conjunct2] unfolding loop
    by (simp only: prod.case option.case evaluate_all.simps after)
  from example_user_tags absent 1 2 valid 3 4 show ?thesis by blast
qed

text \<open>
  C4: a for node resolves its source first, and every failure of that resolution,
  \<open>MissingTagError\<close> included, is thrown on with nothing written, whatever the alias; a
  source that is not a list fails with \<open>InvalidTagError\<close>; and when the source is a list
  but the alias is already a key of the context, the evaluation fails with
  \<open>InvalidTagError\<close> before any turn of the loop, with nothing written.
\<close>

theorem ForValue_evaluate_failures:
  "(parse_tag name kv = Inl e \<longrightarrow>
      evaluate (ForValue name alias nodes) kv os = (os, Some e)) \<and>
   (parse_tag name kv = Inr (DString s) \<longrightarrow>
      evaluate (ForValue name alias nodes) kv os = (os, Some InvalidTagError)) \<and>
   (parse_tag name kv = Inr (DMapper m) \<longrightarrow>
      evaluate (ForValue name alias nodes) kv os = (os, Some InvalidTagError)) \<and>
   (parse_tag name kv = Inr (DList xs) \<and> kv alias \<noteq> None \<longrightarrow>
      evaluate (ForValue name alias nodes) kv os = (os, Some InvalidTagError))"
  by (simp add: parse_tag_list_def)

theorem ForValue_evaluate_failures_witness:
  "evaluate (ForValue ''missing.x'' ''tag'' [Text ''*'']) example_context ''>'' =
     (''>'', Some MissingTagError) \<and>
   evaluate (ForValue ''user.tags[5]'' ''tag'' [Text ''*'']) example_context ''>'' =
     (''>'', Some InvalidTagError) \<and>
   evaluate (ForValue ''user.name'' ''tag'' [Text ''*'']) example_context ''>'' =
     (''>'', Some InvalidTagError) \<and>
   evaluate (ForValue ''user'' ''tag'' [Text ''*'']) example_context ''>'' =
     (''>'', Some InvalidTagError) \<and>
   example_context ''user'' \<noteq> None \<and>
   evaluate (ForValue ''user.tags'' ''user'' [Text ''*'']) example_context ''>'' =
     (''>'', Some InvalidTagError)"
proof -
  note c = ForValue_evaluate_failures
  have 1: "evaluate (ForValue ''missing.x'' ''tag'' [Text ''*'']) example_context ''>'' =
     (''>'', Some MissingTagError)"
    using c [of "''missing.x''" example_context MissingTagError] example_missing by simp
  have 2: "evaluate (ForValue ''user.tags[5]'' ''tag'' [Text ''*'']) example_context ''>'' =
     (''>'', Some InvalidTagError)"
    using c [of "''user.tags[5]''" example_context InvalidTagError] example_tags_5 by simp
  have 3: "evaluate (ForValue ''user.name'' ''tag'' [Text ''*'']) example_context ''>'' =
     (''>'', Some InvalidTagError)"
    using c [of "''user.name''" example_context] example_user_name by simp
  have 4: "evaluate (ForValue ''user'' ''tag'' [Text ''*'']) example_context ''>'' =
     (''>'', Some InvalidTagError)"
    using c [of "''user''" example_context] example_user_mapping by simp
  have a: "example_context ''user'' \<noteq> None"
    by (simp add: example_context_def)
  have 5: "evaluate (ForValue ''user.tags'' ''user'' [Text ''*'']) example_context ''>'' =
     (''>'', Some InvalidTagError)"
    using c [of "''user.tags''" example_context _ "''user''"] example_user_tags a by simp
  from 1 2 3 4 a 5 show ?thesis by blast
qed

section \<open>Claims on the validation of names\<close>

lemma char_between: "(a \<le> c \<and> c \<le> b) = (of_char c \<in> {of_char a .. (of_char b :: nat)})"
  by (simp add: less_eq_char_def)

lemma of_char_mem: "((of_char c :: nat) \<in> of_char ` set cs) = (c \<in> set cs)"
  by (rule inj_image_mem_iff) (simp add: inj_on_def)

lemma lower_range:
  "(CHR ''a'' \<le> c \<and> c \<le> CHR ''z'') = (c \<in> set ''abcdefghijklmnopqrstuvwxyz'')"
proof -
  have "{of_char CHR ''a'' .. (of_char CHR ''z'' :: nat)} =
          of_char ` set ''abcdefghijklmnopqrstuvwxyz''"
    by (simp add: atLeastAtMost_upt upt_rec_numeral)
  then show ?thesis
    unfolding char_between of_char_mem [symmetric] by simp
qed

lemma upper_range:
  "(CHR ''A'' \<le> c \<and> c \<le> CHR ''Z'') = (c \<in> set ''ABCDEFGHIJKLMNOPQRSTUVWXYZ'')"
proof -
  have "{of_char CHR ''A'' .. (of_char CHR ''Z'' :: nat)} =
          of_char ` set ''ABCDEFGHIJKLMNOPQRSTUVWXYZ''"
    by (simp add: atLeastAtMost_upt upt_rec_numeral)
  then show ?thesis
    unfolding char_between of_char_mem [symmetric] by simp
qed

lemma digit_range: "(CHR ''0'' \<le> c \<and> c \<le> CHR ''9'') = (c \<in> set ''0123456789'')"
proof -
  have "{of_char CHR ''0'' .. (of_char CHR ''9'' :: nat)} = of_char ` set ''0123456789''"
    by (simp add: atLeastAtMost_upt upt_rec_numeral)
  then show ?thesis
    unfolding char_between of_char_mem [symmetric] by simp
qed

lemma genericNameValidator_class: "genericNameValidator c = name_class c"
  unfolding genericNameValidator_def name_class_def lower_range upper_range digit_range
  by auto

lemma specialNameValidator_class: "specialNameValidator c = path_class c"
  unfolding specialNameValidator_def path_class_def name_class_def
    lower_range upper_range digit_range
  by auto

lemma find_str_occurs:
  "(find_str pat s \<noteq> None) = (\<exists>before after. s = before @ pat @ after)"
proof (induction s)
  case Nil
  show ?case by simp
next
  case (Cons x xs)
  show ?case
  proof (cases "prefix pat (x # xs)")
    case True
    then obtain after where "x # xs = pat @ after"
      by (auto simp: prefix_def)
    then have "x # xs = [] @ pat @ after" by simp
    then have "\<exists>before after. x # xs = before @ pat @ after" by blast
    with True show ?thesis by simp
  next
    case False
    have "(\<exists>before after. x # xs = before @ pat @ after) =
          (\<exists>before after. xs = before @ pat @ after)"
    proof
      assume "\<exists>before after. x # xs = before @ pat @ after"
      then obtain before after where eq: "x # xs = before @ pat @ after" by blast
      from False eq have "before \<noteq> []"
        by (auto simp: prefix_def)
      then obtain b' where "before = x # b'" and "xs = b' @ pat @ after"
        using eq by (cases before) auto
      then show "\<exists>before after. xs = before @ pat @ after" by blast
    next
      assume "\<exists>before after. xs = before @ pat @ after"
      then obtain before after where "xs = before @ pat @ after" by blast
      then have "x # xs = (x # before) @ pat @ after" by simp
      then show "\<exists>before after. x # xs = before @ pat @ after" by blast
    qed
    with False Cons.IH show ?thesis by simp
  qed
qed

lemma isValidNameExpression_grammar:
  "isValidNameExpression s = (list_all path_class s \<and> \<not> contains_dotdot s)"
  unfolding isValidNameExpression_def Let_def contains_dotdot_def find_str_occurs [symmetric]
  by (simp add: list_all_iff specialNameValidator_class)

lemma isValidName_grammar: "isValidName s = list_all name_class s"
  by (simp add: isValidName_def list_all_iff genericNameValidator_class)

text \<open>
  C8, as amended: constructing a value node, an if node or the source of a for node with
  a path \<open>s\<close> fails with \<open>InvalidTagError\<close> exactly when \<open>s\<close> is not empty and does
  not match the path expression grammar, and otherwise yields the node; the empty path
  is accepted, since the check runs over the characters of the name only. A for node
  fails in the same way exactly when its source is rejected or its alias is not empty
  and does not match the plain name grammar.
\<close>

theorem constructors_validate_names:
  "(new_Value s = Inl InvalidTagError) = (s \<noteq> [] \<and> \<not> matches_path_grammar s) \<and>
   (new_Value s = Inl InvalidTagError \<or> new_Value s = Inr (Value s)) \<and>
   (new_IfValue s = Inl InvalidTagError) = (s \<noteq> [] \<and> \<not> matches_path_grammar s) \<and>
   (new_IfValue s = Inl InvalidTagError \<or> new_IfValue s = Inr (IfValue s [])) \<and>
   (new_ForValue s alias = Inl InvalidTagError) =
     ((s \<noteq> [] \<and> \<not> matches_path_grammar s) \<or>
      (alias \<noteq> [] \<and> \<not> matches_name_grammar alias)) \<and>
   (new_ForValue s alias = Inl InvalidTagError \<or>
    new_ForValue s alias = Inr (ForValue s alias []))"
  by (auto simp: new_Value_def new_IfValue_def new_ForValue_def matches_path_grammar_def
        matches_name_grammar_def isValidNameExpression_grammar isValidName_grammar
        contains_dotdot_def)

lemmas validator_eval =
  isValidNameExpression_def specialNameValidator_def isValidName_def genericNameValidator_def

theorem constructors_validate_names_witness:
  "new_Value ''a.b[1]'' = Inr (Value ''a.b[1]'') \<and> matches_path_grammar ''a.b[1]'' \<and>
   new_IfValue ''a..b'' = Inl InvalidTagError \<and> \<not> matches_path_grammar ''a..b'' \<and>
   new_ForValue ''items'' ''it em'' = Inl InvalidTagError \<and>
   \<not> matches_name_grammar ''it em'' \<and>
   new_Value [] = Inr (Value [])"
proof -
  note c = constructors_validate_names
  have 1: "new_Value ''a.b[1]'' = Inr (Value ''a.b[1]'')"
    by (simp add: new_Value_def validator_eval)
  have 2: "new_IfValue ''a..b'' = Inl InvalidTagError"
    by (simp add: new_IfValue_def validator_eval)
  have 3: "new_ForValue ''items'' ''it em'' = Inl InvalidTagError"
    by (simp add: new_ForValue_def validator_eval)
  have 4: "new_ForValue ''items'' [] = Inr (ForValue ''items'' [] [])"
    by (simp add: new_ForValue_def validator_eval)
  have 5: "new_Value [] = Inr (Value [])"
    by (simp add: new_Value_def validator_eval)
  have a: "matches_path_grammar ''a.b[1]''"
    using c [of "''a.b[1]''"] 1 by simp
  have b: "\<not> matches_path_grammar ''a..b''"
    using c [of "''a..b''"] 2 by simp
  have i: "matches_path_grammar ''items''"
    using c [of "''items''" "[]"] 4 by simp
  have d: "\<not> matches_name_grammar ''it em''"
    using c [of "''items''" "''it em''"] 3 i by simp
  from 1 2 3 5 a b d show ?thesis by blast
qed

text \<open>
  The claim as stated fails at the empty path: the grammar demands at least one
  character, and the constructor accepts the empty name.
\<close>

theorem constructors_validate_names_counterexample:
  "\<not> ((new_Value [] = Inl InvalidTagError) = (\<not> matches_path_grammar [])) \<and>
   new_Value [] = Inr (Value []) \<and> \<not> matches_path_grammar []"
  by (simp add: new_Value_def matches_path_grammar_def isValidNameExpression_def)

section \<open>Claims on the tag parsers\<close>

lemma erase_from_find_char:
  "c \<in> set s \<Longrightarrow> erase_from s (find_char c s) = Inr (takeWhile (\<lambda>x. x \<noteq> c) s)"
  by (cases "find_char c s") (auto simp: erase_from_def find_char_none find_char_takeWhile)

lemma suffix_last: "suffix [c] s \<Longrightarrow> s \<noteq> [] \<and> last s = c"
  by (auto simp: suffix_def)

lemmas trim_eval = trim_def ltrim_def rtrim_def isspace_def

text \<open>
  C10: for every input that starts with \<^verbatim>\<open>{$\<close> and ends with \<^verbatim>\<open>}\<close>, the value tag
  parser passes to the constructor of the value node the text between the opening
  \<^verbatim>\<open>{$\<close> and the first \<^verbatim>\<open>}\<close> after it, trimmed of white space; what stands between that
  first \<^verbatim>\<open>}\<close> and the final one is dropped without a failure, so that \<^verbatim>\<open>{$a}b}\<close> gives
  the value node named \<^verbatim>\<open>a\<close>. (The call of \<^verbatim>\<open>erase\<close> cannot throw here: a \<^verbatim>\<open>}\<close>
  always follows the opening.)
\<close>

theorem parse_value_tag_cuts_at_first_brace:
  assumes "starts_with s ''{$''" and "ends_with s ''}''"
  shows "parse_value_tag s = new_Value (trim (takeWhile (\<lambda>c. c \<noteq> CHR ''}'') (drop 2 s))) \<and>
         parse_value_tag ''{$a}b}'' = Inr (Value ''a'')"
proof -
  obtain t where s: "s = ''{$'' @ t"
    using assms(1) by (auto simp: starts_with_def prefix_def)
  have l: "s \<noteq> [] \<and> last s = CHR ''}''"
    using assms(2) by (simp add: ends_with_def suffix_last)
  have "t \<noteq> []"
    using s l by auto
  then have "last t = CHR ''}''"
    using s l by simp
  with \<open>t \<noteq> []\<close> have "CHR ''}'' \<in> set t"
    using last_in_set by metis
  then have "CHR ''}'' \<in> set (drop 2 s)"
    by (simp add: s)
  then have general: "parse_value_tag s =
      new_Value (trim (takeWhile (\<lambda>c. c \<noteq> CHR ''}'') (drop 2 s)))"
    using assms by (simp add: parse_value_tag_def erase_from_find_char)
  have "starts_with ''{$a}b}'' ''{$''" and "ends_with ''{$a}b}'' ''}''"
    by (simp_all add: starts_with_def ends_with_def suffix_to_prefix)
  moreover have "erase_from ''a}b}'' (find_char CHR ''}'' ''a}b}'') = Inr ''a''"
    by (simp add: erase_from_def)
  moreover have "trim ''a'' = ''a''"
    by (simp add: trim_eval)
  moreover have "new_Value ''a'' = Inr (Value ''a'')"
    by (simp add: new_Value_def validator_eval)
  ultimately have example: "parse_value_tag ''{$a}b}'' = Inr (Value ''a'')"
    by (simp add: parse_value_tag_def)
  from general example show ?thesis by simp
qed

theorem parse_value_tag_witness:
  "starts_with ''{$ user.name }'' ''{$'' \<and> ends_with ''{$ user.name }'' ''}'' \<and>
   parse_value_tag ''{$ user.name }'' = Inr (Value ''user.name'')"
proof -
  have a: "starts_with ''{$ user.name }'' ''{$''"
    by (simp add: starts_with_def)
  have b: "ends_with ''{$ user.name }'' ''}''"
    by (simp add: ends_with_def suffix_to_prefix)
  have 1: "takeWhile (\<lambda>c. c \<noteq> CHR ''}'') (drop 2 ''{$ user.name }'') = '' user.name ''"
    by simp
  have 2: "trim '' user.name '' = ''user.name''"
    by (simp add: trim_eval)
  have 3: "new_Value ''user.name'' = Inr (Value ''user.name'')"
    by (simp add: new_Value_def validator_eval)
  have "parse_value_tag ''{$ user.name }'' = Inr (Value ''user.name'')"
    using parse_value_tag_cuts_at_first_brace [OF a b, THEN conjunct1]
    unfolding 1 2 3 .
  with a b show ?thesis by blast
qed

lemma starts_ends_delimited:
  "starts_with (''{%'' @ body @ ''%}'') ''{%'' \<and> ends_with (''{%'' @ body @ ''%}'') ''%}''"
proof
  show "starts_with (''{%'' @ body @ ''%}'') ''{%''"
    by (simp add: starts_with_def)
  show "ends_with (''{%'' @ body @ ''%}'') ''%}''"
    unfolding ends_with_def suffix_def by (rule exI [of _ "''{%'' @ body"]) simp
qed

lemma takeWhile_before_percent:
  "takeWhile (\<lambda>c. c \<noteq> CHR ''%'') (body @ ''%}'') = takeWhile (\<lambda>c. c \<noteq> CHR ''%'') body"
  by (induction body) auto

lemma parse_forvalue_tag_delimited:
  "parse_forvalue_tag (''{%'' @ body @ ''%}'') =
     (let tokens = split (trim (takeWhile (\<lambda>c. c \<noteq> CHR ''%'') body)) CHR '' '' in
      if length tokens \<noteq> 4 then Inl ExpressionSyntaxError
      else if tokens ! 0 \<noteq> ''for'' \<or> tokens ! 2 \<noteq> ''as'' then Inl ExpressionSyntaxError
      else new_ForValue (tokens ! 1) (tokens ! 3))"
proof -
  have d: "drop 2 (''{%'' @ body @ ''%}'') = body @ ''%}''"
    by simp
  have e: "erase_from (body @ ''%}'') (find_char CHR ''%'' (body @ ''%}'')) =
          Inr (takeWhile (\<lambda>c. c \<noteq> CHR ''%'') body)"
    by (simp add: erase_from_find_char takeWhile_before_percent)
  have se: "starts_with (''{%'' @ body @ ''%}'') ''{%''"
    "ends_with (''{%'' @ body @ ''%}'') ''%}''"
    using starts_ends_delimited [of body] by blast+
  show ?thesis
    unfolding parse_forvalue_tag_def Let_def d e
    by (simp only: se simp_thms if_False sum.case)
qed

text \<open>
  C9, as amended: for a for tag \<^verbatim>\<open>{%\<close> body \<^verbatim>\<open>%}\<close>, the interior is the body up to its
  first \<^verbatim>\<open>%\<close>; trimmed and split on single spaces it must give exactly the four tokens
  \<^verbatim>\<open>for\<close>, source, \<^verbatim>\<open>as\<close>, alias, which are passed to the constructor of the for node;
  any other number of tokens, a first token other than \<^verbatim>\<open>for\<close> or a third token other
  than \<^verbatim>\<open>as\<close> fails with \<open>ExpressionSyntaxError\<close>, which is not \<open>InvalidTagError\<close>. The
  interior \<^verbatim>\<open>for items as item\<close> gives the for node with source \<^verbatim>\<open>items\<close> and alias
  \<^verbatim>\<open>item\<close>.
\<close>

theorem parse_forvalue_tag_four_tokens:
  assumes "s = ''{%'' @ body @ ''%}''"
    and "tokens = split (trim (takeWhile (\<lambda>c. c \<noteq> CHR ''%'') body)) CHR '' ''"
  shows "(length tokens \<noteq> 4 \<or> tokens ! 0 \<noteq> ''for'' \<or> tokens ! 2 \<noteq> ''as'' \<longrightarrow>
            parse_forvalue_tag s = Inl ExpressionSyntaxError) \<and>
         (tokens = [''for'', source, ''as'', alias] \<longrightarrow>
            parse_forvalue_tag s = new_ForValue source alias) \<and>
         (trim (takeWhile (\<lambda>c. c \<noteq> CHR ''%'') body) = ''for items as item'' \<longrightarrow>
            parse_forvalue_tag s = Inr (ForValue ''items'' ''item'' [])) \<and>
         ExpressionSyntaxError \<noteq> InvalidTagError"
proof -
  have eq: "parse_forvalue_tag s =
     (if length tokens \<noteq> 4 then Inl ExpressionSyntaxError
      else if tokens ! 0 \<noteq> ''for'' \<or> tokens ! 2 \<noteq> ''as'' then Inl ExpressionSyntaxError
      else new_ForValue (tokens ! 1) (tokens ! 3))"
    unfolding assms parse_forvalue_tag_delimited Let_def ..
  have 1: "length tokens \<noteq> 4 \<or> tokens ! 0 \<noteq> ''for'' \<or> tokens ! 2 \<noteq> ''as'' \<longrightarrow>
            parse_forvalue_tag s = Inl ExpressionSyntaxError"
    unfolding eq by simp
  have 2: "tokens = [''for'', source, ''as'', alias] \<longrightarrow>
            parse_forvalue_tag s = new_ForValue source alias"
    unfolding eq by simp
  have sp: "split ''for items as item'' CHR '' '' = [''for'', ''items'', ''as'', ''item'']"
    by simp
  have nf: "new_ForValue ''items'' ''item'' = Inr (ForValue ''items'' ''item'' [])"
    by (simp add: new_ForValue_def validator_eval)
  have 3: "trim (takeWhile (\<lambda>c. c \<noteq> CHR ''%'') body) = ''for items as item'' \<longrightarrow>
            parse_forvalue_tag s = Inr (ForValue ''items'' ''item'' [])"
  proof
    assume "trim (takeWhile (\<lambda>c. c \<noteq> CHR ''%'') body) = ''for items as item''"
    then have "tokens = [''for'', ''items'', ''as'', ''item'']"
      using assms(2) sp by simp
    then show "parse_forvalue_tag s = Inr (ForValue ''items'' ''item'' [])"
      unfolding eq using nf by simp
  qed
  from 1 2 3 show ?thesis by simp
qed

theorem parse_forvalue_tag_witness:
  "parse_forvalue_tag ''{% for items as item %}'' = Inr (ForValue ''items'' ''item'' []) \<and>
   parse_forvalue_tag ''{% for items in item %}'' = Inl ExpressionSyntaxError \<and>
   parse_forvalue_tag ''{% for items %}'' = Inl ExpressionSyntaxError \<and>
   parse_forvalue_tag ''{% for a.b as x %}'' = Inr (ForValue ''a.b'' ''x'' [])"
proof -
  note c = parse_forvalue_tag_four_tokens
  have t1: "trim (takeWhile (\<lambda>c. c \<noteq> CHR ''%'') '' for items as item '') = ''for items as item''"
    by (simp add: trim_eval)
  have t2: "trim (takeWhile (\<lambda>c. c \<noteq> CHR ''%'') '' for items in item '') = ''for items in item''"
    by (simp add: trim_eval)
  have t3: "trim (takeWhile (\<lambda>c. c \<noteq> CHR ''%'') '' for items '') = ''for items''"
    by (simp add: trim_eval)
  have t4: "trim (takeWhile (\<lambda>c. c \<noteq> CHR ''%'') '' for a.b as x '') = ''for a.b as x''"
    by (simp add: trim_eval)
  have s1: "split ''for items as item'' CHR '' '' = [''for'', ''items'', ''as'', ''item'']"
    by simp
  have s2: "split ''for items in item'' CHR '' '' = [''for'', ''items'', ''in'', ''item'']"
    by simp
  have s3: "split ''for items'' CHR '' '' = [''for'', ''items'']"
    by simp
  have s4: "split ''for a.b as x'' CHR '' '' = [''for'', ''a.b'', ''as'', ''x'']"
    by simp
  have nf: "new_ForValue ''a.b'' ''x'' = Inr (ForValue ''a.b'' ''x'' [])"
    by (simp add: new_ForValue_def validator_eval)
  have 1: "parse_forvalue_tag ''{% for items as item %}'' = Inr (ForValue ''items'' ''item'' [])"
    using c [of "''{% for items as item %}''" "'' for items as item ''"
               "[''for'', ''items'', ''as'', ''item'']"]
    unfolding t1 s1 by simp
  have 2: "parse_forvalue_tag ''{% for items in item %}'' = Inl ExpressionSyntaxError"
    using c [of "''{% for items in item %}''" "'' for items in item ''"
               "[''for'', ''items'', ''in'', ''item'']"]
    unfolding t2 s2 by simp
  have 3: "parse_forvalue_tag ''{% for items %}'' = Inl ExpressionSyntaxError"
    using c [of "''{% for items %}''" "'' for items ''" "[''for'', ''items'']"]
    unfolding t3 s3 by simp
  have 4: "parse_forvalue_tag ''{% for a.b as x %}'' = Inr (ForValue ''a.b'' ''x'' [])"
    using c [of "''{% for a.b as x %}''" "'' for a.b as x ''" "[''for'', ''a.b'', ''as'', ''x'']"
               "''a.b''" "''x''"]
    unfolding t4 s4 nf by simp
  from 1 2 3 4 show ?thesis by blast
qed

text \<open>
  The claim as stated fails where the body holds a \<^verbatim>\<open>%\<close> before the closing
  delimiter: what follows that \<^verbatim>\<open>%\<close> is dropped, so a body with six tokens between
  the delimiters gives a for node instead of a failure.
\<close>

theorem parse_forvalue_tag_counterexample:
  "split (trim '' for a as b % c '') CHR '' '' = [''for'', ''a'', ''as'', ''b'', ''%'', ''c''] \<and>
   parse_forvalue_tag ''{% for a as b % c %}'' = Inr (ForValue ''a'' ''b'' []) \<and>
   parse_forvalue_tag ''{% for a as b % c %}'' \<noteq> Inl ExpressionSyntaxError"
proof -
  have t: "trim '' for a as b % c '' = ''for a as b % c''"
    by (simp add: trim_eval)
  have whole: "split ''for a as b % c'' CHR '' '' = [''for'', ''a'', ''as'', ''b'', ''%'', ''c'']"
    by simp
  have cut: "takeWhile (\<lambda>c. c \<noteq> CHR ''%'') '' for a as b % c '' = '' for a as b ''"
    by simp
  have t': "trim '' for a as b '' = ''for a as b''"
    by (simp add: trim_eval)
  have tokens: "split ''for a as b'' CHR '' '' = [''for'', ''a'', ''as'', ''b'']"
    by simp
  have nf: "new_ForValue ''a'' ''b'' = Inr (ForValue ''a'' ''b'' [])"
    by (simp add: new_ForValue_def validator_eval)
  have "parse_forvalue_tag (''{%'' @ '' for a as b % c '' @ ''%}'') = Inr (ForValue ''a'' ''b'' [])"
    unfolding parse_forvalue_tag_delimited cut t' tokens Let_def using nf by simp
  then have "parse_forvalue_tag ''{% for a as b % c %}'' = Inr (ForValue ''a'' ''b'' [])"
    by simp
  with t whole show ?thesis by simp
qed

text \<open>
  The three characters \<^verbatim>\<open>{%}\<close> pass the check of the delimiters, which overlap in
  them; no \<^verbatim>\<open>%\<close> is left after the opening is erased, and \<^verbatim>\<open>erase\<close> throws.
\<close>

lemma parse_forvalue_tag_overlapping_delimiters:
  "parse_forvalue_tag ''{%}'' = Inl StdOutOfRange"
  by (simp add: parse_forvalue_tag_def starts_with_def ends_with_def suffix_to_prefix
        erase_from_def)

end
